theory Spec2Isabelle
  imports Main "HOL-Library.Word" "HOL-Library.Finite_Map"
begin

unbundle bit_operations_syntax

section \<open>Data model\<close>

text \<open>
  The manager keeps a doubly linked list of \<open>ZIndexNode\<close> objects and a
  \<open>Map<string, ZIndexNode>\<close> from block ids to nodes. Nodes are shared, mutable
  objects: the list pointers and the map entries alias the same node. The model
  therefore keeps an explicit object store \<open>nodes\<close> from references to node
  values; \<open>head\<close>, \<open>next\<close>, \<open>prev\<close> and the map hold references. The store is a
  total function: a JavaScript reference always denotes an object, it cannot
  dangle. \<open>null\<close> is \<open>None\<close>.

  A JavaScript string is a sequence of 16-bit code units, which is what
  \<open>length\<close> counts and \<open>charCodeAt\<close> reads. Numbers are IEEE doubles in the
  source; every number the manager computes is an integer of magnitude far
  below \<open>2 ^ 53\<close>, where double arithmetic is exact, so they are \<open>int\<close> here.
\<close>

type_synonym ref = nat

type_synonym js_string = "16 word list"

record ZIndexNode =
  blockId :: js_string
  fixedZIndex :: int
  renderOrder :: int
  "next" :: "ref option"
  prev :: "ref option"

text \<open>The constructor of \<open>ZIndexNode\<close>: the field initialisers, then the two assignments.\<close>

definition new_ZIndexNode :: "js_string \<Rightarrow> int \<Rightarrow> ZIndexNode" where
  "new_ZIndexNode bid z =
     \<lparr>blockId = bid, fixedZIndex = z, renderOrder = 9000, next = None, prev = None\<rparr>"

record ZIndexManager =
  head :: "ref option"
  blockMap :: "(js_string, ref) fmap"
  nodes :: "ref \<Rightarrow> ZIndexNode"

text \<open>
  \<open>private baseRenderOrder = 9000\<close>: the field is initialised once and no method
  of the class assigns it, so it is a constant of the model.
\<close>

definition baseRenderOrder :: int where
  "baseRenderOrder = 9000"

text \<open>The private constructor, as \<open>getInstance\<close> runs it, over an object store \<open>h\<close>.\<close>

definition new_ZIndexManager :: "(ref \<Rightarrow> ZIndexNode) \<Rightarrow> ZIndexManager" where
  "new_ZIndexManager h = \<lparr>head = None, blockMap = fmempty, nodes = h\<rparr>"

text \<open>\<open>throw new Error(msg)\<close>.\<close>

datatype error = Error string

section \<open>Operations\<close>

text \<open>
  A method that may throw returns the error or its value together with the
  manager as the call leaves it: a mutation made before a \<open>throw\<close> stays.
\<close>

text \<open>\<open>moveToFront\<close>: the body is the single statement \<open>return 0\<close>.\<close>

definition moveToFront :: "ZIndexManager \<Rightarrow> js_string \<Rightarrow> (error + int) \<times> ZIndexManager" where
  "moveToFront s bid = (Inr 0, s)"

text \<open>
  \<open>getBlocksNeedingUpdate\<close>: the \<open>while (current)\<close> loop pushes one
  \<open>{blockId, renderOrder}\<close> object per node (a pair here, \<open>fst\<close> the \<open>blockId\<close>
  field and \<open>snd\<close> the \<open>renderOrder\<close> field). On a cyclic chain the loop does not
  return: the result is then \<open>None\<close>.
\<close>

partial_function (option) getBlocksNeedingUpdate_loop ::
  "(ref \<Rightarrow> ZIndexNode) \<Rightarrow> ref option \<Rightarrow> (js_string \<times> int) list \<Rightarrow> (js_string \<times> int) list option"
where
  "getBlocksNeedingUpdate_loop h current blocks =
     (case current of
        None \<Rightarrow> Some blocks
      | Some r \<Rightarrow>
          getBlocksNeedingUpdate_loop h (next (h r)) (blocks @ [(blockId (h r), renderOrder (h r))]))"

definition getBlocksNeedingUpdate :: "ZIndexManager \<Rightarrow> (js_string \<times> int) list option" where
  "getBlocksNeedingUpdate s = getBlocksNeedingUpdate_loop (nodes s) (head s) []"

text \<open>
  The 32-bit integer operators of JavaScript. \<open>ToInt32\<close> reduces modulo \<open>2 ^ 32\<close>
  into the signed range; \<open><<\<close> and \<open>&\<close> convert their operands with it, and \<open><<\<close>
  its result. \<open>%\<close> takes the sign of the dividend.
\<close>

definition to_int32 :: "int \<Rightarrow> int" where
  "to_int32 x = (x + 2 ^ 31) mod 2 ^ 32 - 2 ^ 31"

definition js_shl :: "int \<Rightarrow> nat \<Rightarrow> int" where
  "js_shl a k = to_int32 (to_int32 a * 2 ^ (k mod 32))"

definition js_and :: "int \<Rightarrow> int \<Rightarrow> int" where
  "js_and a b = to_int32 a AND to_int32 b"

definition js_rem :: "int \<Rightarrow> int \<Rightarrow> int" where
  "js_rem a b = sgn a * (\<bar>a\<bar> mod \<bar>b\<bar>)"

text \<open>
  \<open>generateFixedZIndex\<close>: the \<open>for\<close> loop over the code units, with \<open>hash\<close> as
  the accumulator, then \<open>Math.abs(hash) % 8000 + 1000\<close>.
\<close>

fun generateFixedZIndex_loop :: "int \<Rightarrow> js_string \<Rightarrow> int" where
  "generateFixedZIndex_loop hash [] = hash"
| "generateFixedZIndex_loop hash (c # cs) =
     generateFixedZIndex_loop (js_and (js_shl hash 5 - hash + uint c) 0xffffffff) cs"

definition generateFixedZIndex :: "js_string \<Rightarrow> int" where
  "generateFixedZIndex bid = js_rem \<bar>generateFixedZIndex_loop 0 bid\<bar> 8000 + 1000"

text \<open>\<open>updateRenderOrders\<close>: the body is \<open>throw new Error('Not implemented')\<close>.\<close>

definition updateRenderOrders :: "ZIndexManager \<Rightarrow> (error + unit) \<times> ZIndexManager" where
  "updateRenderOrders s = (Inl (Error ''Not implemented''), s)"

definition getZIndex :: "ZIndexManager \<Rightarrow> js_string \<Rightarrow> int" where
  "getZIndex s bid =
     (case fmlookup (blockMap s) bid of
        None \<Rightarrow> generateFixedZIndex bid
      | Some node \<Rightarrow> fixedZIndex (nodes s node))"

definition getRenderOrder :: "ZIndexManager \<Rightarrow> js_string \<Rightarrow> int" where
  "getRenderOrder s bid =
     (case fmlookup (blockMap s) bid of
        Some node \<Rightarrow> renderOrder (nodes s node)
      | None \<Rightarrow> baseRenderOrder)"

text \<open>
  \<open>removeBlock\<close>, statement by statement. Each pointer patch reads the node
  through the store as the previous statement left it, as the source reads
  \<open>node.next\<close> and \<open>node.prev\<close> again after each assignment. The last statement
  is the call of \<open>updateRenderOrders\<close>, whose outcome is the outcome of the
  method.
\<close>

definition removeBlock :: "ZIndexManager \<Rightarrow> js_string \<Rightarrow> (error + unit) \<times> ZIndexManager" where
  "removeBlock s bid =
     (case fmlookup (blockMap s) bid of
        None \<Rightarrow> (Inr (), s)
      | Some node \<Rightarrow>
          let s1 = (if head s = Some node then s\<lparr>head := next (nodes s node)\<rparr> else s);
              s2 = (case prev (nodes s1 node) of
                      None \<Rightarrow> s1
                    | Some p \<Rightarrow>
                        s1\<lparr>nodes := (nodes s1)(p := (nodes s1 p)\<lparr>next := next (nodes s1 node)\<rparr>)\<rparr>);
              s3 = (case next (nodes s2 node) of
                      None \<Rightarrow> s2
                    | Some n \<Rightarrow>
                        s2\<lparr>nodes := (nodes s2)(n := (nodes s2 n)\<lparr>prev := prev (nodes s2 node)\<rparr>)\<rparr>);
              s4 = s3\<lparr>blockMap := fmdrop bid (blockMap s3)\<rparr>
          in updateRenderOrders s4)"

text \<open>\<open>getBlockCount\<close>: \<open>Map.prototype.size\<close>, the number of keys.\<close>

definition getBlockCount :: "ZIndexManager \<Rightarrow> nat" where
  "getBlockCount s = fcard (fmdom (blockMap s))"

partial_function (option) getAllBlocks_loop ::
  "(ref \<Rightarrow> ZIndexNode) \<Rightarrow> ref option \<Rightarrow> js_string list \<Rightarrow> js_string list option"
where
  "getAllBlocks_loop h current blocks =
     (case current of
        None \<Rightarrow> Some blocks
      | Some r \<Rightarrow> getAllBlocks_loop h (next (h r)) (blocks @ [blockId (h r)]))"

definition getAllBlocks :: "ZIndexManager \<Rightarrow> js_string list option" where
  "getAllBlocks s = getAllBlocks_loop (nodes s) (head s) []"

definition reset :: "ZIndexManager \<Rightarrow> (error + unit) \<times> ZIndexManager" where
  "reset s = (Inr (), s\<lparr>head := None, blockMap := fmempty\<rparr>)"

section \<open>Sequences of public calls\<close>

text \<open>
  The public methods of the class. A caller may catch an error and go on, so a
  sequence of calls continues from the manager that each call leaves behind.
\<close>

datatype operation =
    MoveToFront js_string
  | GetBlocksNeedingUpdate
  | GetZIndex js_string
  | GetRenderOrder js_string
  | RemoveBlock js_string
  | GetBlockCount
  | GetAllBlocks
  | Reset

fun step :: "ZIndexManager \<Rightarrow> operation \<Rightarrow> ZIndexManager" where
  "step s (MoveToFront bid) = snd (moveToFront s bid)"
| "step s (RemoveBlock bid) = snd (removeBlock s bid)"
| "step s Reset = snd (reset s)"
| "step s GetBlocksNeedingUpdate = s"
| "step s (GetZIndex bid) = s"
| "step s (GetRenderOrder bid) = s"
| "step s GetBlockCount = s"
| "step s GetAllBlocks = s"

definition run :: "operation list \<Rightarrow> ZIndexManager \<Rightarrow> ZIndexManager" where
  "run ops s = foldl step s ops"

section \<open>Representation invariant\<close>

text \<open>
  \<open>dll h p current rs\<close>: following \<open>next\<close> from \<open>current\<close> visits exactly the
  references \<open>rs\<close> and then reaches \<open>null\<close>, and each node's \<open>prev\<close> is the node
  before it (\<open>p\<close> for the first).
\<close>

fun dll :: "(ref \<Rightarrow> ZIndexNode) \<Rightarrow> ref option \<Rightarrow> ref option \<Rightarrow> ref list \<Rightarrow> bool" where
  "dll h p current [] \<longleftrightarrow> current = None"
| "dll h p current (r # rs) \<longleftrightarrow>
     current = Some r \<and> prev (h r) = p \<and> dll h (Some r) (next (h r)) rs"

text \<open>
  \<open>tracks s rs\<close>: the manager is a well-formed list of the nodes \<open>rs\<close>, front
  first. The chain from \<open>head\<close> is doubly linked and ends in \<open>null\<close>, no block
  id occurs twice on it, and the map holds exactly the ids on the chain, each
  bound to its own node.
\<close>

definition tracks :: "ZIndexManager \<Rightarrow> ref list \<Rightarrow> bool" where
  "tracks s rs \<longleftrightarrow>
     dll (nodes s) None (head s) rs \<and>
     distinct (map (\<lambda>r. blockId (nodes s r)) rs) \<and>
     fmdom (blockMap s) = fset_of_list (map (\<lambda>r. blockId (nodes s r)) rs) \<and>
     list_all (\<lambda>r. fmlookup (blockMap s) (blockId (nodes s r)) = Some r) rs"

section \<open>Auxiliary notions for the proofs\<close>

text \<open>
  The store after the two pointer patches of \<open>removeBlock\<close> on \<open>node\<close>: first
  \<open>node.prev.next = node.next\<close>, then \<open>node.next.prev = node.prev\<close>, the second
  reading \<open>node\<close> in the store the first one left. Lemma \<open>removeBlock_tracked\<close>
  shows that this is the store \<open>removeBlock\<close> leaves.
\<close>

definition unlink :: "(ref \<Rightarrow> ZIndexNode) \<Rightarrow> ref \<Rightarrow> ref \<Rightarrow> ZIndexNode" where
  "unlink h node =
     (let h1 = (case prev (h node) of None \<Rightarrow> h
                | Some p \<Rightarrow> h(p := (h p)\<lparr>next := next (h node)\<rparr>))
      in (case next (h1 node) of None \<Rightarrow> h1
          | Some n \<Rightarrow> h1(n := (h1 n)\<lparr>prev := prev (h1 node)\<rparr>)))"

text \<open>
  \<open>keyed s\<close>: every node in the map carries, as its \<open>fixedZIndex\<close>, the hash of
  the id it is stored under, which is what a node made as
  \<open>new ZIndexNode(blockId, generateFixedZIndex(blockId))\<close> carries.
\<close>

definition keyed :: "ZIndexManager \<Rightarrow> bool" where
  "keyed s \<longleftrightarrow>
     fmpred (\<lambda>bid node. fixedZIndex (nodes s node) = generateFixedZIndex bid) (blockMap s)"


section \<open>Example stores\<close>

text \<open>An object store in which no node is linked.\<close>

definition blank_store :: "ref \<Rightarrow> ZIndexNode" where
  "blank_store = (\<lambda>_. new_ZIndexNode [] 0)"

text \<open>
  The list \<open>[C, B, A]\<close> of the ids \<open>"C"\<close>, \<open>"B"\<close>, \<open>"A"\<close> (code units 67, 66, 65),
  at the references 3, 2, 1, with render orders 9000, 8999, 8998.
\<close>

definition store_CBA :: "ref \<Rightarrow> ZIndexNode" where
  "store_CBA = blank_store
     (1 := (new_ZIndexNode [65] (generateFixedZIndex [65]))
             \<lparr>renderOrder := 8998, prev := Some 2\<rparr>,
      2 := (new_ZIndexNode [66] (generateFixedZIndex [66]))
             \<lparr>renderOrder := 8999, next := Some 1, prev := Some 3\<rparr>,
      3 := (new_ZIndexNode [67] (generateFixedZIndex [67]))
             \<lparr>next := Some 2\<rparr>)"

definition manager_CBA :: ZIndexManager where
  "manager_CBA =
     \<lparr>head = Some 3,
      blockMap = fmupd [67] 3 (fmupd [66] 2 (fmupd [65] 1 fmempty)),
      nodes = store_CBA\<rparr>"

section \<open>The two walks of the list\<close>

lemma getAllBlocks_loop_None [simp]: "getAllBlocks_loop h None blocks = Some blocks"
  by (subst getAllBlocks_loop.simps) simp

lemma getAllBlocks_loop_Some [simp]:
  "getAllBlocks_loop h (Some r) blocks = getAllBlocks_loop h (next (h r)) (blocks @ [blockId (h r)])"
  by (subst getAllBlocks_loop.simps) simp

lemma getBlocksNeedingUpdate_loop_None [simp]:
  "getBlocksNeedingUpdate_loop h None blocks = Some blocks"
  by (subst getBlocksNeedingUpdate_loop.simps) simp

lemma getBlocksNeedingUpdate_loop_Some [simp]:
  "getBlocksNeedingUpdate_loop h (Some r) blocks =
     getBlocksNeedingUpdate_loop h (next (h r)) (blocks @ [(blockId (h r), renderOrder (h r))])"
  by (subst getBlocksNeedingUpdate_loop.simps) simp

lemma updates_give_ids:
  assumes "getBlocksNeedingUpdate_loop h current blocks = Some ys"
  shows "getAllBlocks_loop h current (map fst blocks) = Some (map fst ys)"
proof (rule getBlocksNeedingUpdate_loop.raw_induct
    [where P = "\<lambda>h c bs ys. getAllBlocks_loop h c (map fst bs) = Some (map fst ys)", OF _ assms])
  fix loop h c bs ys
  assume IH: "\<And>h c bs ys. loop h c bs = Some ys \<Longrightarrow>
                getAllBlocks_loop h c (map fst bs) = Some (map fst ys)"
    and body: "(case c of None \<Rightarrow> Some bs
                | Some r \<Rightarrow> loop h (next (h r)) (bs @ [(blockId (h r), renderOrder (h r))])) = Some ys"
  show "getAllBlocks_loop h c (map fst bs) = Some (map fst ys)"
  proof (cases c)
    case None
    with body show ?thesis by simp
  next
    case (Some r)
    with body have "loop h (next (h r)) (bs @ [(blockId (h r), renderOrder (h r))]) = Some ys"
      by simp
    from IH [OF this] Some show ?thesis by simp
  qed
qed

lemma ids_give_updates:
  assumes "getAllBlocks_loop h current ids = Some zs"
  shows "ids = map fst blocks \<Longrightarrow> \<exists>ys. getBlocksNeedingUpdate_loop h current blocks = Some ys"
proof -
  have "\<forall>blocks. ids = map fst blocks \<longrightarrow>
          (\<exists>ys. getBlocksNeedingUpdate_loop h current blocks = Some ys)"
  proof (rule getAllBlocks_loop.raw_induct
      [where P = "\<lambda>h c ids zs. \<forall>bs. ids = map fst bs \<longrightarrow>
                    (\<exists>ys. getBlocksNeedingUpdate_loop h c bs = Some ys)", OF _ assms])
    fix loop h c ids zs
    assume IH: "\<And>h c ids zs. loop h c ids = Some zs \<Longrightarrow>
                  \<forall>bs. ids = map fst bs \<longrightarrow> (\<exists>ys. getBlocksNeedingUpdate_loop h c bs = Some ys)"
      and body: "(case c of None \<Rightarrow> Some ids
                  | Some r \<Rightarrow> loop h (next (h r)) (ids @ [blockId (h r)])) = Some zs"
    show "\<forall>bs. ids = map fst bs \<longrightarrow> (\<exists>ys. getBlocksNeedingUpdate_loop h c bs = Some ys)"
    proof (cases c)
      case None
      then show ?thesis by simp
    next
      case (Some r)
      with body have "loop h (next (h r)) (ids @ [blockId (h r)]) = Some zs"
        by simp
      from IH [OF this] Some show ?thesis by simp
    qed
  qed
  then show "ids = map fst blocks \<Longrightarrow> \<exists>ys. getBlocksNeedingUpdate_loop h current blocks = Some ys"
    by blast
qed

lemma loops_agree:
  "map_option (map fst) (getBlocksNeedingUpdate_loop h current blocks) =
   getAllBlocks_loop h current (map fst blocks)"
proof (cases "getBlocksNeedingUpdate_loop h current blocks")
  case None
  have "getAllBlocks_loop h current (map fst blocks) = None"
  proof (rule ccontr)
    assume "getAllBlocks_loop h current (map fst blocks) \<noteq> None"
    then obtain zs where "getAllBlocks_loop h current (map fst blocks) = Some zs" by auto
    from ids_give_updates [OF this refl] None show False by auto
  qed
  with None show ?thesis by simp
next
  case (Some ys)
  from updates_give_ids [OF this] Some show ?thesis by simp
qed

section \<open>Chains in the store\<close>

lemma dll_walk:
  "dll h p current rs \<Longrightarrow>
   getAllBlocks_loop h current blocks = Some (blocks @ map (\<lambda>r. blockId (h r)) rs)"
  by (induction rs arbitrary: p current blocks) auto

lemma tracks_getAllBlocks:
  "tracks s rs \<Longrightarrow> getAllBlocks s = Some (map (\<lambda>r. blockId (nodes s r)) rs)"
  using dll_walk [of "nodes s" None "head s" rs "[]"]
  by (simp add: tracks_def getAllBlocks_def)

lemma dll_frame:
  "\<forall>r \<in> set rs. next (h' r) = next (h r) \<and> prev (h' r) = prev (h r) \<Longrightarrow>
   dll h' p current rs = dll h p current rs"
  by (induction rs arbitrary: p current) auto

lemma dll_append_Cons:
  "dll h p current (as @ r # bs) \<Longrightarrow>
   prev (h r) = (if as = [] then p else Some (last as)) \<and>
   dll h (Some r) (next (h r)) bs \<and>
   (as = [] \<longrightarrow> current = Some r) \<and>
   (as \<noteq> [] \<longrightarrow> current = Some (hd as) \<and> next (h (last as)) = Some r)"
proof (induction as arbitrary: p current)
  case Nil
  then show ?case by simp
next
  case (Cons a as)
  then show ?case by (cases as) auto
qed

lemma tracked_node:
  assumes "tracks s rs" and "fmlookup (blockMap s) bid = Some node"
  shows "node \<in> set rs \<and> blockId (nodes s node) = bid"
proof -
  from assms(2) have "bid |\<in>| fmdom (blockMap s)"
    by (simp add: fmdomI)
  with assms(1) have "bid \<in> set (map (\<lambda>r. blockId (nodes s r)) rs)"
    by (simp add: tracks_def fset_of_list.rep_eq)
  then obtain r where r: "r \<in> set rs" "blockId (nodes s r) = bid"
    by auto
  with assms(1) have "fmlookup (blockMap s) bid = Some r"
    by (auto simp: tracks_def list_all_iff)
  with assms(2) r show ?thesis by simp
qed

lemma dll_splice:
  assumes "dll h p current (as @ q # rest)"
    and "\<forall>r \<in> set as. next (h' r) = next (h r) \<and> prev (h' r) = prev (h r)"
    and "prev (h' q) = prev (h q)"
    and "dll h' (Some q) (next (h' q)) bs"
  shows "dll h' p current (as @ q # bs)"
  using assms by (induction as arbitrary: p current) auto

section \<open>Removing a tracked block\<close>

lemma removeBlock_tracked:
  assumes "fmlookup (blockMap s) bid = Some node"
  shows "removeBlock s bid =
     (Inl (Error ''Not implemented''),
      \<lparr>head = (if head s = Some node then next (nodes s node) else head s),
       blockMap = fmdrop bid (blockMap s),
       nodes = unlink (nodes s) node\<rparr>)"
  using assms
  by (cases s) (simp add: removeBlock_def updateRenderOrders_def unlink_def Let_def split: option.splits)

lemma unlink_fields:
  "blockId (unlink h node r) = blockId (h r) \<and>
   fixedZIndex (unlink h node r) = fixedZIndex (h r) \<and>
   renderOrder (unlink h node r) = renderOrder (h r)"
  by (simp add: unlink_def Let_def split: option.splits)

lemma unlink_dll_front:
  assumes "dll h None current (node # bs)" and "distinct (node # bs)"
  shows "dll (unlink h node) None (next (h node)) bs"
proof (cases bs)
  case Nil
  with assms show ?thesis by (simp add: unlink_def)
next
  case (Cons n bs')
  with assms have n: "next (h node) = Some n" "prev (h node) = None"
    and rest: "dll h (Some n) (next (h n)) bs'" and nin: "n \<notin> set bs'"
    by auto
  have fr: "dll (h(n := (h n)\<lparr>prev := None\<rparr>)) (Some n) (next (h n)) bs' = dll h (Some n) (next (h n)) bs'"
    using nin by (intro dll_frame) auto
  have u: "unlink h node = h(n := (h n)\<lparr>prev := None\<rparr>)"
    using n by (simp add: unlink_def)
  show ?thesis
    unfolding u using fr rest n Cons by simp
qed

lemma unlink_dll_inner:
  assumes "dll h None current (as @ q # node # bs)" and "distinct (as @ q # node # bs)"
  shows "dll (unlink h node) None current (as @ q # bs)"
proof -
  from dll_append_Cons [of h None current "as @ [q]" node bs] assms(1)
  have pq: "prev (h node) = Some q" and tl: "dll h (Some node) (next (h node)) bs"
    by auto
  from assms(2) have neq: "q \<noteq> node" "q \<notin> set as" "q \<notin> set bs" "node \<notin> set bs"
    by auto
  show ?thesis
  proof (cases bs)
    case Nil
    with tl have "next (h node) = None" by simp
    with pq neq have u: "unlink h node = h(q := (h q)\<lparr>next := None\<rparr>)"
      by (simp add: unlink_def)
    have "dll (h(q := (h q)\<lparr>next := None\<rparr>)) None current (as @ q # [])"
    proof (rule dll_splice [where h = h and rest = "node # bs"])
      show "dll h None current (as @ q # node # bs)" by (rule assms(1))
      show "\<forall>r\<in>set as. next ((h(q := (h q)\<lparr>next := None\<rparr>)) r) = next (h r) \<and>
              prev ((h(q := (h q)\<lparr>next := None\<rparr>)) r) = prev (h r)"
        using neq by auto
      show "prev ((h(q := (h q)\<lparr>next := None\<rparr>)) q) = prev (h q)" by simp
      show "dll (h(q := (h q)\<lparr>next := None\<rparr>)) (Some q)
              (next ((h(q := (h q)\<lparr>next := None\<rparr>)) q)) []"
        by simp
    qed
    with u Nil show ?thesis by simp
  next
    case (Cons n bs')
    with tl have n: "next (h node) = Some n" and rest: "dll h (Some n) (next (h n)) bs'"
      by auto
    from assms(2) Cons have nn: "n \<noteq> q" "n \<noteq> node" "n \<notin> set as" "n \<notin> set bs'" "q \<notin> set bs'"
      by auto
    define h' where "h' = h(q := (h q)\<lparr>next := Some n\<rparr>, n := (h n)\<lparr>prev := Some q\<rparr>)"
    from pq n neq nn have u: "unlink h node = h'"
      by (simp add: unlink_def h'_def)
    have "dll h' (Some n) (next (h n)) bs' = dll h (Some n) (next (h n)) bs'"
      using nn by (intro dll_frame) (auto simp: h'_def)
    with rest have tl': "dll h' (Some n) (next (h n)) bs'" by simp
    have "dll h' None current (as @ q # n # bs')"
    proof (rule dll_splice [where h = h and rest = "node # bs"])
      show "dll h None current (as @ q # node # bs)" by (rule assms(1))
      show "\<forall>r\<in>set as. next (h' r) = next (h r) \<and> prev (h' r) = prev (h r)"
        using neq nn by (auto simp: h'_def)
      show "prev (h' q) = prev (h q)" using nn by (simp add: h'_def)
      have "next (h' q) = Some n" "prev (h' n) = Some q" "next (h' n) = next (h n)"
        using nn by (simp_all add: h'_def)
      with tl' show "dll h' (Some q) (next (h' q)) (n # bs')" by simp
    qed
    with u Cons show ?thesis by simp
  qed
qed

lemma unlink_dll:
  assumes "dll h None current rs" and "distinct rs" and "node \<in> set rs"
  shows "dll (unlink h node) None (if current = Some node then next (h node) else current)
           (remove1 node rs)"
proof -
  from assms(3) obtain as bs where rs: "rs = as @ node # bs" and nas: "node \<notin> set as"
    by (auto dest: split_list_first)
  have rm: "remove1 node rs = as @ bs"
    using nas by (simp add: rs remove1_append)
  show ?thesis
  proof (cases as rule: rev_cases)
    case Nil
    with assms rs have "current = Some node" by simp
    with unlink_dll_front [of h current node bs] assms rs Nil rm show ?thesis by simp
  next
    case (snoc as' q)
    with assms(1) rs have "current = Some (hd (as' @ [q]))"
      using dll_append_Cons [of h None current "as' @ [q]" node bs] by simp
    moreover have "hd (as' @ [q]) \<in> set as" using snoc by (cases as') auto
    ultimately have "current \<noteq> Some node" using nas by auto
    with unlink_dll_inner [of h current as' q node bs] assms rs snoc rm show ?thesis by simp
  qed
qed

lemma tracks_distinct: "tracks s rs \<Longrightarrow> distinct rs"
  by (auto simp: tracks_def distinct_map)

lemma removeBlock_tracks:
  assumes tr: "tracks s rs" and lk: "fmlookup (blockMap s) bid = Some node"
  shows "tracks (snd (removeBlock s bid)) (remove1 node rs)"
proof -
  let ?f = "\<lambda>r. blockId (nodes s r)"
  from tracked_node [OF tr lk] have node: "node \<in> set rs" "?f node = bid" by simp_all
  from tr have d: "distinct rs" by (rule tracks_distinct)
  from tr have dm: "distinct (map ?f rs)" by (simp add: tracks_def)
  have other: "?f r \<noteq> bid" if "r \<in> set (remove1 node rs)" for r
  proof
    assume "?f r = bid"
    with node have "?f r = ?f node" by simp
    moreover from that d have "r \<in> set rs" by simp
    ultimately have "r = node" using dm node(1) by (auto simp: distinct_map dest: inj_onD)
    with that d show False by simp
  qed
  have ids: "set (map ?f (remove1 node rs)) = set (map ?f rs) - {bid}"
  proof -
    have "set (remove1 node rs) = set rs - {node}" using d by simp
    moreover have "?f ` (set rs - {node}) = ?f ` set rs - {?f node}"
      using dm node(1) by (auto simp: distinct_map dest: inj_onD)
    ultimately show ?thesis using node(2) by simp
  qed
  have 1: "dll (unlink (nodes s) node) None
             (if head s = Some node then next (nodes s node) else head s) (remove1 node rs)"
    using tr d node(1) by (intro unlink_dll) (simp_all add: tracks_def)
  have 2: "distinct (map ?f (remove1 node rs))"
    using dm by (simp add: distinct_map distinct_remove1 inj_on_def)
  have 3: "fmdom (fmdrop bid (blockMap s)) = fset_of_list (map ?f (remove1 node rs))"
  proof -
    have "fset (fmdom (fmdrop bid (blockMap s))) = fset (fset_of_list (map ?f (remove1 node rs)))"
      using tr ids by (simp add: tracks_def fset_of_list.rep_eq)
    then show ?thesis by (simp only: fset_inject)
  qed
  have 4: "list_all (\<lambda>r. fmlookup (fmdrop bid (blockMap s)) (?f r) = Some r) (remove1 node rs)"
    using tr other by (auto simp: tracks_def list_all_iff dest: notin_set_remove1)
  from 1 2 3 4 show ?thesis
    by (simp add: removeBlock_tracked [OF lk] tracks_def unlink_fields)
qed

lemma map_remove1:
  "distinct (map f rs) \<Longrightarrow> node \<in> set rs \<Longrightarrow>
   map f (remove1 node rs) = remove1 (f node) (map f rs)"
proof (induction rs)
  case Nil
  then show ?case by simp
next
  case (Cons a rs)
  show ?case
  proof (cases "node = a")
    case True
    then show ?thesis by simp
  next
    case False
    with Cons.prems have "node \<in> set rs" "f a \<notin> f ` set rs" by auto
    then have "f node \<noteq> f a" by (metis imageI)
    with Cons False \<open>node \<in> set rs\<close> show ?thesis by simp
  qed
qed

lemma removeBlock_untracked:
  "fmlookup (blockMap s) bid = None \<Longrightarrow> removeBlock s bid = (Inr (), s)"
  by (simp add: removeBlock_def)

lemma removeBlock_getAllBlocks:
  assumes tr: "tracks s rs" and lk: "fmlookup (blockMap s) bid = Some node"
  shows "getAllBlocks (snd (removeBlock s bid)) =
           Some (remove1 bid (map (\<lambda>r. blockId (nodes s r)) rs))"
    and "bid \<notin> set (remove1 bid (map (\<lambda>r. blockId (nodes s r)) rs))"
proof -
  let ?f = "\<lambda>r. blockId (nodes s r)"
  from tracked_node [OF tr lk] have node: "node \<in> set rs" "?f node = bid" by simp_all
  from tr have dm: "distinct (map ?f rs)" by (simp add: tracks_def)
  have "getAllBlocks (snd (removeBlock s bid)) =
          Some (map (\<lambda>r. blockId (nodes (snd (removeBlock s bid)) r)) (remove1 node rs))"
    by (rule tracks_getAllBlocks [OF removeBlock_tracks [OF tr lk]])
  also have "(\<lambda>r. blockId (nodes (snd (removeBlock s bid)) r)) = ?f"
    by (simp add: removeBlock_tracked [OF lk] unlink_fields)
  also have "map ?f (remove1 node rs) = remove1 bid (map ?f rs)"
    using map_remove1 [OF dm node(1)] node(2) by simp
  finally show "getAllBlocks (snd (removeBlock s bid)) = Some (remove1 bid (map ?f rs))" .
  from dm show "bid \<notin> set (remove1 bid (map ?f rs))" by simp
qed


section \<open>The hash and the stored keys\<close>

lemma generateFixedZIndex_range:
  "1000 \<le> generateFixedZIndex bid \<and> generateFixedZIndex bid < 9000"
proof -
  define x where "x = \<bar>generateFixedZIndex_loop 0 bid\<bar>"
  have "0 \<le> x" by (simp add: x_def)
  have "0 \<le> js_rem x 8000 \<and> js_rem x 8000 < 8000"
  proof (cases "x = 0")
    case True
    then show ?thesis by (simp add: js_rem_def)
  next
    case False
    with \<open>0 \<le> x\<close> have "sgn x = 1" by simp
    with \<open>0 \<le> x\<close> show ?thesis by (simp add: js_rem_def)
  qed
  then show ?thesis by (simp add: generateFixedZIndex_def x_def)
qed

lemma hash_65: "generateFixedZIndex [65] = 1065"
  by (simp add: generateFixedZIndex_def js_and_def js_shl_def to_int32_def js_rem_def)

lemma hash_66: "generateFixedZIndex [66] = 1066"
  by (simp add: generateFixedZIndex_def js_and_def js_shl_def to_int32_def js_rem_def)

lemma hash_67: "generateFixedZIndex [67] = 1067"
  by (simp add: generateFixedZIndex_def js_and_def js_shl_def to_int32_def js_rem_def)

section \<open>What the public calls can reach\<close>

text \<open>
  \<open>moveToFront\<close> leaves the manager as it is, \<open>removeBlock\<close> returns at once when
  the id is not in the map, and \<open>reset\<close> empties what is already empty: from the
  new manager, every sequence of public calls ends in the new manager.
\<close>

lemma step_new_ZIndexManager: "step (new_ZIndexManager h) op = new_ZIndexManager h"
  by (cases op) (simp_all add: new_ZIndexManager_def moveToFront_def removeBlock_def reset_def)

lemma run_new_ZIndexManager: "run ops (new_ZIndexManager h) = new_ZIndexManager h"
  by (induction ops) (simp_all add: run_def step_new_ZIndexManager)

lemma keyed_new_ZIndexManager: "keyed (new_ZIndexManager h)"
  by (simp add: keyed_def new_ZIndexManager_def)

lemma keyed_step: "keyed s \<Longrightarrow> keyed (step s op)"
proof (cases op)
  case (RemoveBlock bid)
  assume k: "keyed s"
  show ?thesis
  proof (cases "fmlookup (blockMap s) bid")
    case None
    with k RemoveBlock show ?thesis by (simp add: removeBlock_def)
  next
    case (Some node)
    from k have "fmpred (\<lambda>b n. fixedZIndex (nodes s n) = generateFixedZIndex b)
                   (fmdrop bid (blockMap s))"
      unfolding keyed_def by (rule fmpred_drop)
    with RemoveBlock show ?thesis
      by (simp add: removeBlock_tracked [OF Some] keyed_def unlink_fields)
  qed
qed (simp_all add: moveToFront_def reset_def keyed_def)

lemma keyed_run: "keyed s \<Longrightarrow> keyed (run ops s)"
  unfolding run_def by (induction ops arbitrary: s) (simp_all add: keyed_step)

section \<open>The example store \<open>[C, B, A]\<close>\<close>

lemma tracks_manager_CBA: "tracks manager_CBA [3, 2, 1]"
  by (simp add: tracks_def manager_CBA_def store_CBA_def new_ZIndexNode_def)

lemma getAllBlocks_manager_CBA: "getAllBlocks manager_CBA = Some [[67], [66], [65]]"
  by (simp add: getAllBlocks_def manager_CBA_def store_CBA_def new_ZIndexNode_def)


lemma keyed_manager_CBA: "keyed manager_CBA"
  by (auto simp: keyed_def manager_CBA_def store_CBA_def new_ZIndexNode_def fmpred_iff
      split: if_splits)





section \<open>Invariance under the public calls\<close>








lemma moveToFront_unchanged: "moveToFront s bid = (Inr 0, s)"
  by (simp add: moveToFront_def)

text \<open>
  On a well-formed list every public call other than \<open>removeBlock\<close> of a tracked
  id returns: the two walks end, and no other statement throws.
\<close>

lemma other_calls_return:
  assumes "tracks s rs"
  shows "fst (moveToFront s bid) = Inr 0"
    and "fst (reset s) = Inr ()"
    and "fmlookup (blockMap s) bid = None \<Longrightarrow> fst (removeBlock s bid) = Inr ()"
    and "\<exists>ids. getAllBlocks s = Some ids"
    and "\<exists>blocks. getBlocksNeedingUpdate s = Some blocks"
proof -
  show "fst (moveToFront s bid) = Inr 0" by (simp add: moveToFront_def)
  show "fst (reset s) = Inr ()" by (simp add: reset_def)
  show "fmlookup (blockMap s) bid = None \<Longrightarrow> fst (removeBlock s bid) = Inr ()"
    by (simp add: removeBlock_untracked)
  from tracks_getAllBlocks [OF assms] show a: "\<exists>ids. getAllBlocks s = Some ids" by blast
  with loops_agree [of "nodes s" "head s" "[]"]
  show "\<exists>blocks. getBlocksNeedingUpdate s = Some blocks"
    by (cases "getBlocksNeedingUpdate s") (auto simp: getBlocksNeedingUpdate_def getAllBlocks_def)
qed

section \<open>Claims\<close>

text \<open>
  Claim C1. After \<open>moveToFront(x)\<close> the id \<open>x\<close> should be the first element of
  \<open>getAllBlocks()\<close> and the rank returned, which \<open>getRenderOrder(x)\<close> reports
  too, should be the highest rank assigned, 9000. The code does neither. On the
  new manager \<open>moveToFront("A")\<close> returns 0 and leaves the list empty, while
  \<open>getRenderOrder("A")\<close> is 9000; on the list \<open>[C, B, A]\<close> it returns 0 and
  leaves the list \<open>[C, B, A]\<close>, with \<open>A\<close> last at rank 8998.
\<close>

theorem moveToFront_not_front:
  "moveToFront (new_ZIndexManager blank_store) [65] = (Inr 0, new_ZIndexManager blank_store) \<and>
   getAllBlocks (snd (moveToFront (new_ZIndexManager blank_store) [65])) = Some [] \<and>
   getRenderOrder (snd (moveToFront (new_ZIndexManager blank_store) [65])) [65] = 9000 \<and>
   moveToFront manager_CBA [65] = (Inr 0, manager_CBA) \<and>
   getAllBlocks (snd (moveToFront manager_CBA [65])) = Some [[67], [66], [65]] \<and>
   getRenderOrder (snd (moveToFront manager_CBA [65])) [65] = 8998"
  by (simp add: moveToFront_def getAllBlocks_manager_CBA)
     (simp add: new_ZIndexManager_def getAllBlocks_def getRenderOrder_def baseRenderOrder_def
        manager_CBA_def store_CBA_def new_ZIndexNode_def)

text \<open>
  Claim C2. Every public operation returns without raising an error, for every
  id and every state of the store. The states of the store are those that a
  sequence of public calls reaches from the new manager: the fields and the
  constructor are private, and nothing else writes them. In each of them
  \<open>moveToFront\<close>, \<open>removeBlock\<close> and \<open>reset\<close> return, both walks end, and the
  three getters yield their values.
\<close>

theorem public_calls_return:
  "fst (moveToFront (run ops (new_ZIndexManager h)) bid) = Inr 0 \<and>
   fst (removeBlock (run ops (new_ZIndexManager h)) bid) = Inr () \<and>
   fst (reset (run ops (new_ZIndexManager h))) = Inr () \<and>
   getAllBlocks (run ops (new_ZIndexManager h)) = Some [] \<and>
   getBlocksNeedingUpdate (run ops (new_ZIndexManager h)) = Some [] \<and>
   getBlockCount (run ops (new_ZIndexManager h)) = 0 \<and>
   getRenderOrder (run ops (new_ZIndexManager h)) bid = 9000 \<and>
   getZIndex (run ops (new_ZIndexManager h)) bid = generateFixedZIndex bid"
  by (simp add: run_new_ZIndexManager)
     (simp add: new_ZIndexManager_def moveToFront_def removeBlock_def reset_def getAllBlocks_def
        getBlocksNeedingUpdate_def getBlockCount_def getRenderOrder_def baseRenderOrder_def
        getZIndex_def)

theorem public_calls_return_witness:
  "fst (removeBlock
          (run [MoveToFront [65], MoveToFront [66], RemoveBlock [65], Reset, MoveToFront [66]]
             (new_ZIndexManager blank_store)) [66]) = Inr () \<and>
   getAllBlocks
     (run [MoveToFront [65], MoveToFront [66], RemoveBlock [65], Reset, MoveToFront [66]]
        (new_ZIndexManager blank_store)) = Some []"
  using public_calls_return
    [of "[MoveToFront [65], MoveToFront [66], RemoveBlock [65], Reset, MoveToFront [66]]"
        blank_store "[66]"]
  by simp




text \<open>
  Claim C4. When the id is not in the map, \<open>moveToFront(id)\<close> should create a
  node with \<open>fixedZIndex = generateFixedZIndex(id)\<close> and insert it, so that the
  id is in the map afterwards and \<open>getBlockCount()\<close> has grown by one. The code
  does not: on the new manager, after \<open>moveToFront("A")\<close> the id \<open>"A"\<close> is
  still not in the map and the count is still 0.
\<close>

theorem moveToFront_not_registered:
  "fmlookup (blockMap (new_ZIndexManager blank_store)) [65] = None \<and>
   fmlookup (blockMap (snd (moveToFront (new_ZIndexManager blank_store) [65]))) [65] = None \<and>
   getBlockCount (new_ZIndexManager blank_store) = 0 \<and>
   getBlockCount (snd (moveToFront (new_ZIndexManager blank_store) [65])) = 0 \<and>
   getZIndex (snd (moveToFront (new_ZIndexManager blank_store) [65])) [65] = 1065"
  by (simp add: moveToFront_def new_ZIndexManager_def getBlockCount_def getZIndex_def hash_65)



text \<open>
  Claim C6. For every store state, \<open>reset\<close> does not fail, afterwards
  \<open>getBlockCount\<close> is 0 and \<open>getAllBlocks\<close> returns the empty list, and a second
  \<open>reset\<close> right after the first gives the same outcome and the same state as
  the first.
\<close>

theorem reset_correct:
  "fst (reset s) = Inr () \<and>
   getBlockCount (snd (reset s)) = 0 \<and>
   getAllBlocks (snd (reset s)) = Some [] \<and>
   reset (snd (reset s)) = reset s"
  by (simp add: reset_def getBlockCount_def getAllBlocks_def)

text \<open>
  Claim C7. For every state and id, \<open>getRenderOrder\<close> returns the render order
  of the node that the map holds for the id, and 9000 (\<open>baseRenderOrder\<close>) when
  the map holds none.
\<close>

theorem getRenderOrder_cases:
  "(fmlookup (blockMap s) bid = Some node \<longrightarrow> getRenderOrder s bid = renderOrder (nodes s node)) \<and>
   (fmlookup (blockMap s) bid = None \<longrightarrow> getRenderOrder s bid = 9000)"
  by (simp add: getRenderOrder_def baseRenderOrder_def)

theorem getRenderOrder_cases_witness:
  "fmlookup (blockMap manager_CBA) [66] = Some 2 \<and> getRenderOrder manager_CBA [66] = 8999 \<and>
   fmlookup (blockMap manager_CBA) [68] = None \<and> getRenderOrder manager_CBA [68] = 9000"
proof -
  have a: "fmlookup (blockMap manager_CBA) [66] = Some 2"
    and b: "fmlookup (blockMap manager_CBA) [68] = None"
    by (simp_all add: manager_CBA_def)
  have c: "renderOrder (nodes manager_CBA 2) = 8999"
    by (simp add: manager_CBA_def store_CBA_def new_ZIndexNode_def)
  from getRenderOrder_cases [of manager_CBA "[66]" 2] getRenderOrder_cases [of manager_CBA "[68]" 2] a b c
  show ?thesis by simp
qed

text \<open>
  Claim C8. \<open>getZIndex\<close> depends on the id alone: in every state whose tracked
  nodes carry the hash of their id (\<open>keyed\<close>, which holds of every state the
  public calls reach and is kept by every public call), it returns
  \<open>generateFixedZIndex\<close> of the id, whether or not the id is tracked, and the
  value lies in the range from 1000 up to but not including 9000.
\<close>

theorem getZIndex_pure:
  assumes "keyed s"
  shows "getZIndex s bid = generateFixedZIndex bid \<and>
         1000 \<le> getZIndex s bid \<and> getZIndex s bid < 9000"
proof -
  have "getZIndex s bid = generateFixedZIndex bid"
  proof (cases "fmlookup (blockMap s) bid")
    case None
    then show ?thesis by (simp add: getZIndex_def)
  next
    case (Some node)
    with assms have "fixedZIndex (nodes s node) = generateFixedZIndex bid"
      by (auto simp: keyed_def dest: fmpredD)
    with Some show ?thesis by (simp add: getZIndex_def)
  qed
  with generateFixedZIndex_range [of bid] show ?thesis by simp
qed

theorem getZIndex_pure_witness:
  "keyed manager_CBA \<and>
   getZIndex manager_CBA [66] = 1066 \<and> generateFixedZIndex [66] = 1066 \<and>
   getZIndex manager_CBA [68] = 1068 \<and> generateFixedZIndex [68] = 1068"
proof -
  have k: "keyed manager_CBA" by (rule keyed_manager_CBA)
  have "generateFixedZIndex [68] = 1068"
    by (simp add: generateFixedZIndex_def js_and_def js_shl_def to_int32_def js_rem_def)
  with getZIndex_pure [OF k, of "[66]"] getZIndex_pure [OF k, of "[68]"] k hash_66
  show ?thesis by simp
qed

text \<open>
  Claim C9. For every store state, the \<open>blockId\<close> fields of the entries that
  \<open>getBlocksNeedingUpdate\<close> returns are exactly the ids that \<open>getAllBlocks\<close>
  returns: the same ids in the same order, hence the same number of them. On a
  chain that never reaches \<open>null\<close> neither call returns.
\<close>

theorem getBlocksNeedingUpdate_ids:
  "map_option (map fst) (getBlocksNeedingUpdate s) = getAllBlocks s"
  using loops_agree [of "nodes s" "head s" "[]"]
  by (simp add: getBlocksNeedingUpdate_def getAllBlocks_def)

text \<open>
  Claim C10. In every well-formed state in which the id is tracked,
  \<open>removeBlock(id)\<close> ends in the error of \<open>updateRenderOrders\<close>, and the state
  it leaves already has the node unlinked and the id deleted: the id is not in
  the map, and \<open>getAllBlocks()\<close> returns the former list without the id.
\<close>

theorem removeBlock_not_atomic:
  assumes "tracks s rs" and "fmlookup (blockMap s) bid = Some node"
  shows "fst (removeBlock s bid) = Inl (Error ''Not implemented'') \<and>
         fmlookup (blockMap (snd (removeBlock s bid))) bid = None \<and>
         getAllBlocks (snd (removeBlock s bid)) = map_option (remove1 bid) (getAllBlocks s) \<and>
         (\<exists>ids. getAllBlocks (snd (removeBlock s bid)) = Some ids \<and> bid \<notin> set ids)"
proof -
  have "fst (removeBlock s bid) = Inl (Error ''Not implemented'')"
    and "fmlookup (blockMap (snd (removeBlock s bid))) bid = None"
    by (simp_all add: removeBlock_tracked [OF assms(2)])
  moreover from removeBlock_getAllBlocks [OF assms] tracks_getAllBlocks [OF assms(1)]
  have "getAllBlocks (snd (removeBlock s bid)) = map_option (remove1 bid) (getAllBlocks s)"
    and "\<exists>ids. getAllBlocks (snd (removeBlock s bid)) = Some ids \<and> bid \<notin> set ids"
    by simp_all
  ultimately show ?thesis by simp
qed

theorem removeBlock_not_atomic_witness:
  "tracks manager_CBA [3, 2, 1] \<and>
   fmlookup (blockMap manager_CBA) [66] = Some 2 \<and>
   fst (removeBlock manager_CBA [66]) = Inl (Error ''Not implemented'') \<and>
   fmlookup (blockMap (snd (removeBlock manager_CBA [66]))) [66] = None \<and>
   getAllBlocks (snd (removeBlock manager_CBA [66])) = Some [[67], [65]]"
proof -
  have t: "tracks manager_CBA [3, 2, 1]" by (rule tracks_manager_CBA)
  have l: "fmlookup (blockMap manager_CBA) [66] = Some 2"
    by (simp add: manager_CBA_def)
  from removeBlock_not_atomic [OF t l] t l getAllBlocks_manager_CBA
  show ?thesis by simp
qed

end
